theory Spec2Isabelle
  imports Main
begin

section \<open>C strings and the library routines the shell relies on\<close>

text \<open>
  The shell of \<^verbatim>\<open>djsh.c\<close> is one function, \<^verbatim>\<open>main\<close>, with two helpers
  (\<^verbatim>\<open>getCommandFromPath\<close>, \<^verbatim>\<open>checkPath\<close>). Buffers are character lists; the C
  string held by a buffer is the part before its first NUL byte. Every allocation is
  taken to succeed. Of the heap, the model follows the history entries: whether an entry
  points to a block of \<^verbatim>\<open>malloc\<close> or to a string literal, how large the block is
  and whether the copy into it fits, and what \<^verbatim>\<open>free\<close> is called on. The copies of
  arguments and path are made into blocks of the right size; the candidate path of
  \<^verbatim>\<open>checkPath\<close> has 1024 spare bytes, and command names are taken to be shorter.
  The \<^verbatim>\<open>next\<close> field of a fresh history node, which the source never initialises,
  is taken to be the null pointer.
\<close>

abbreviation NUL :: char where "NUL \<equiv> CHR 0x00"
abbreviation TAB :: char where "TAB \<equiv> CHR 0x09"
abbreviation LF :: char where "LF \<equiv> CHR 0x0A"
abbreviation CR :: char where "CR \<equiv> CHR 0x0D"

definition cstr :: "string \<Rightarrow> string" where
  "cstr buf = takeWhile (\<lambda>c. c \<noteq> NUL) buf"

text \<open>\<^verbatim>\<open>const char* whiteSpace = " \t\n\r"\<close>\<close>

definition whiteSpace :: string where
  "whiteSpace = [CHR '' '', TAB, LF, CR]"

text \<open>
  \<^verbatim>\<open>strtok\<close>: the second argument is the C string at the position to scan from (the
  string passed in, or the position saved by the previous call). The result is the token,
  if any, and the position saved for the next call: just behind the delimiter that
  ended the token, or the end of the string.
\<close>

definition strtok :: "string \<Rightarrow> string \<Rightarrow> string option \<times> string" where
  "strtok delim s =
     (let s1 = dropWhile (\<lambda>c. c \<in> set delim) s in
      if s1 = [] then (None, [])
      else (Some (takeWhile (\<lambda>c. c \<notin> set delim) s1),
            (case dropWhile (\<lambda>c. c \<notin> set delim) s1 of [] \<Rightarrow> [] | _ # r \<Rightarrow> r)))"

text \<open>
  What a buffer holds, read as a C string, once \<^verbatim>\<open>strtok\<close> has returned its first
  token: the delimiter behind that token has been overwritten with NUL.
\<close>

definition strtok_clobber :: "string \<Rightarrow> string \<Rightarrow> string" where
  "strtok_clobber delim s =
     takeWhile (\<lambda>c. c \<in> set delim) s @
     takeWhile (\<lambda>c. c \<notin> set delim) (dropWhile (\<lambda>c. c \<in> set delim) s)"

text \<open>
  \<^verbatim>\<open>atoi\<close>, as the C library has it: \<^verbatim>\<open>strtol\<close> in base 10 (optional white
  space, an optional sign, then the longest run of decimal digits; 0 when there is no
  digit; the value kept within the 64 bits of a \<^verbatim>\<open>long\<close>), converted to the 32 bits
  of an \<^verbatim>\<open>int\<close> by wrap-around.
\<close>

definition isspace :: "char \<Rightarrow> bool" where
  "isspace c = (c \<in> set [CHR '' '', TAB, LF, CHR 0x0B, CHR 0x0C, CR])"

definition isdigit :: "char \<Rightarrow> bool" where
  "isdigit c = (48 \<le> (of_char c :: nat) \<and> (of_char c :: nat) \<le> 57)"

definition digits_value :: "string \<Rightarrow> int" where
  "digits_value ds = foldl (\<lambda>acc c. 10 * acc + (of_char c - 48)) 0 ds"

definition strtol :: "string \<Rightarrow> int" where
  "strtol str =
     max (- 9223372036854775808) (min 9223372036854775807
     (case dropWhile isspace str of
        [] \<Rightarrow> 0
      | c # r \<Rightarrow>
          if c = CHR ''-'' then - digits_value (takeWhile isdigit r)
          else if c = CHR ''+'' then digits_value (takeWhile isdigit r)
          else digits_value (takeWhile isdigit (c # r))))"

definition to_int32 :: "int \<Rightarrow> int" where
  "to_int32 v = (v + 2147483648) mod 4294967296 - 2147483648"

definition atoi :: "string \<Rightarrow> int" where
  "atoi str = to_int32 (strtol str)"

section \<open>Shell state, environment and observable events\<close>

text \<open>Where a file descriptor points.\<close>

datatype target = Terminal | File string

text \<open>
  What the shell does to the outside world, in order. \<open>Out t s\<close> is a
  \<^verbatim>\<open>write(STDOUT_FILENO, s)\<close> while descriptor 1 points to \<open>t\<close>; \<open>Err\<close> is
  \<^verbatim>\<open>djsh_error()\<close>; \<open>Fork evs\<close> is a successful \<^verbatim>\<open>fork()\<close> whose child goes on
  to do \<open>evs\<close>; \<open>Exec file argv t\<close> is a successful \<^verbatim>\<open>execlp\<close>/\<^verbatim>\<open>execvp\<close> with
  the argument vector the new program sees and the destination of its standard output.
\<close>

datatype event =
    Out target string
  | Err
  | Opened string
  | Chdir string
  | Fork "event list"
  | Wait
  | Exec string "string list" target
  | ChildExit int
  | ChildResumesLoop

text \<open>\<^verbatim>\<open>char execType\<close>, which only ever holds \<^verbatim>\<open>'l'\<close> or \<^verbatim>\<open>'v'\<close>.\<close>

datatype exec_type = ExecLP | ExecVP

text \<open>
  The answers of the operating system to the calls the shell makes:
  \<^verbatim>\<open>access(p, X_OK) == 0\<close>, whether an exec of a file succeeds, whether
  \<^verbatim>\<open>open\<close> of the redirection target succeeds, whether the two \<^verbatim>\<open>dup2\<close> calls and
  \<^verbatim>\<open>fork\<close> succeed, and whether \<^verbatim>\<open>chdir\<close> succeeds.
\<close>

record env =
  access_ok :: "string \<Rightarrow> bool"
  exec_ok :: "string \<Rightarrow> bool"
  open_ok :: "string \<Rightarrow> bool"
  swap_ok :: bool
  restore_ok :: bool
  fork_ok :: bool
  chdir_ok :: "string \<Rightarrow> bool"

text \<open>
  Where the \<^verbatim>\<open>cmd\<close> pointer of a history entry points: to a block that
  \<^verbatim>\<open>malloc\<close> returned, or to a string literal. Either way it holds a C string.
\<close>

datatype cmd_ptr = Heap string | Literal string

fun cmd_text :: "cmd_ptr \<Rightarrow> string" where
  "cmd_text (Heap str) = str"
| "cmd_text (Literal str) = str"

text \<open>
  The two ways in which recording a line leaves the behaviour that C defines:
  \<^verbatim>\<open>strcpy\<close> writes past the end of the block, or \<^verbatim>\<open>free\<close> is called on a
  string literal (for which the C library aborts the process).
\<close>

datatype fault = CopyOverrun | FreeOfLiteral

text \<open>
  The variables of \<^verbatim>\<open>main\<close> that live across loop iterations, the position saved
  inside \<^verbatim>\<open>strtok\<close> (\<open>saved\<close>), the destination of descriptor 1 (\<open>stdout_tgt\<close>)
  and the events so far (\<open>trace\<close>). \<open>hist\<close> is the linked list from \<^verbatim>\<open>head\<close> to
  \<^verbatim>\<open>tail\<close>. \<open>temp_fd\<close> is the destination of the descriptor made by
  \<^verbatim>\<open>dup(STDOUT_FILENO)\<close>, which is never closed or redirected afterwards; \<open>None\<close> before the
  first \<^verbatim>\<open>dup\<close>. (\<^verbatim>\<open>dup\<close>, whose result the source does not check, is taken to
  succeed.) \<open>output_fd\<close> is the file opened last, \<open>None\<close> when \<^verbatim>\<open>open\<close>
  returned -1. \<open>fault\<close> is the first step outside defined behaviour, if there was one.
\<close>

record shell =
  execType :: exec_type
  path :: "string option"
  hist :: "cmd_ptr list"
  numHistory :: int
  args :: "nat \<Rightarrow> string option"
  redirect :: bool
  output_fd :: "string option"
  temp_fd :: "target option"
  stdout_tgt :: target
  saved :: string
  trace :: "event list"
  fault :: "fault option"

definition MAX_ARGS :: nat where
  "MAX_ARGS = 4"

definition prompt :: string where
  "prompt = ''djsh> ''"

definition init_shell :: "exec_type \<Rightarrow> shell" where
  "init_shell t =
     \<lparr> execType = t, path = None, hist = [], numHistory = 0, args = (\<lambda>i. None),
       redirect = False, output_fd = None, temp_fd = None, stdout_tgt = Terminal,
       saved = [], trace = [], fault = None \<rparr>"

definition djsh_error :: "shell \<Rightarrow> shell" where
  "djsh_error s = s\<lparr>trace := trace s @ [Err]\<rparr>"

definition write_stdout :: "string \<Rightarrow> shell \<Rightarrow> shell" where
  "write_stdout str s = s\<lparr>trace := trace s @ [Out (stdout_tgt s) str]\<rparr>"

section \<open>Reading a line and recording it (lines 115--161)\<close>

text \<open>
  \<^verbatim>\<open>getline\<close> returns at least one character or fails, so \<^verbatim>\<open>line[nread-1]\<close> is
  read only when there is one.
\<close>

definition strip_newline :: "string \<Rightarrow> string" where
  "strip_newline line =
     (let nread = length line in
      if 1 \<le> nread \<and> line ! (nread - 1) = LF then
        (let l1 = line[nread - 1 := NUL] in
         if 2 \<le> nread \<and> l1 ! (nread - 2) = CR then l1[nread - 2 := NUL] else l1)
      else line)"

definition blank_input :: "string \<Rightarrow> bool" where
  "blank_input line =
     (length line = 0 \<or> (length line = 1 \<and> line ! 0 = NUL) \<or> cstr line = [CR, LF])"

text \<open>
  For blank input \<^verbatim>\<open>tempCmd\<close> ends up pointing to the literal \<^verbatim>\<open>" \0"\<close>, the
  block of two bytes allocated just before being dropped. Otherwise it points to a block
  of \<^verbatim>\<open>strlen(line)\<close> bytes, or of \<^verbatim>\<open>strlen(line+1)\<close> bytes when the line did
  not end with a newline, into which \<^verbatim>\<open>strcpy\<close> writes \<^verbatim>\<open>strlen(line) + 1\<close> bytes.
\<close>

definition tempCmd :: "string \<Rightarrow> cmd_ptr" where
  "tempCmd line = (if blank_input line then Literal '' '' else Heap (cstr line))"

definition malloc_request :: "string \<Rightarrow> nat" where
  "malloc_request line =
     (if line ! (length line - 1) = NUL then length (cstr line)
      else length (cstr (drop 1 line)))"

text \<open>
  The bytes that can be written to a block of a given requested size: as the allocator of
  the GNU C library on a 64-bit platform has it, the request rounded up to 8 more than a
  multiple of 16, and 24 at least. C itself defines no write past the requested size; a copy
  that fits the usable size is taken to do no harm.
\<close>

definition malloc_usable_size :: "nat \<Rightarrow> nat" where
  "malloc_usable_size n = max 24 ((n + 23) div 16 * 16 - 8)"

definition copy_overruns :: "string \<Rightarrow> bool" where
  "copy_overruns line =
     (\<not> blank_input line \<and> malloc_usable_size (malloc_request line) < length (cstr line) + 1)"

definition set_fault :: "fault \<Rightarrow> shell \<Rightarrow> shell" where
  "set_fault f s = (case fault s of None \<Rightarrow> s\<lparr>fault := Some f\<rparr> | Some g \<Rightarrow> s)"

text \<open>\<^verbatim>\<open>free(temp->cmd)\<close> for the entry that is evicted.\<close>

fun free_cmd :: "cmd_ptr \<Rightarrow> shell \<Rightarrow> shell" where
  "free_cmd (Heap str) s = s"
| "free_cmd (Literal str) s = set_fault FreeOfLiteral s"

definition record_history :: "string \<Rightarrow> shell \<Rightarrow> shell" where
  "record_history line s =
     (let s0 = (if copy_overruns line then set_fault CopyOverrun s else s);
          s1 = s0\<lparr>hist := hist s0 @ [tempCmd line]\<rparr>
      in if numHistory s1 < 50 then s1\<lparr>numHistory := numHistory s1 + 1\<rparr>
         else (case hist s1 of [] \<Rightarrow> s1 | h # r \<Rightarrow> free_cmd h (s1\<lparr>hist := r\<rparr>)))"

section \<open>Parsing the arguments (lines 163--219)\<close>

text \<open>The body of the branch for a \<^verbatim>\<open>">"\<close> token, lines 178--193.\<close>

definition open_redirect :: "env \<Rightarrow> string option \<Rightarrow> shell \<Rightarrow> shell" where
  "open_redirect e filename s =
     (case filename of
        None \<Rightarrow> djsh_error (s\<lparr>output_fd := None\<rparr>)
      | Some f \<Rightarrow>
          if \<not> open_ok e f then djsh_error (s\<lparr>output_fd := None\<rparr>)
          else
            (let s1 = s\<lparr>output_fd := Some f, trace := trace s @ [Opened f]\<rparr>;
                 s2 = s1\<lparr>temp_fd := Some (stdout_tgt s1)\<rparr>
             in if \<not> swap_ok e then djsh_error s2
                else s2\<lparr>stdout_tgt := File f, redirect := True\<rparr>))"

text \<open>One iteration of the \<^verbatim>\<open>for\<close> loop; the flag says that it ended in \<^verbatim>\<open>break\<close>.\<close>

definition parse_slot :: "env \<Rightarrow> string \<Rightarrow> nat \<Rightarrow> shell \<Rightarrow> shell \<times> bool" where
  "parse_slot e line i s =
     (case strtok whiteSpace (if i = 0 then cstr line else saved s) of
        (nextToken, r) \<Rightarrow>
          (let s1 = s\<lparr>saved := r\<rparr> in
           case nextToken of
             Some t \<Rightarrow>
               if t = ''>'' then
                 (case strtok whiteSpace (saved s1) of
                    (filename, r2) \<Rightarrow>
                      (let s2 = open_redirect e filename (s1\<lparr>saved := r2\<rparr>) in
                       if i < MAX_ARGS then (s2\<lparr>args := (args s2)(i := None)\<rparr>, False)
                       else (s2, True)))
               else if i < MAX_ARGS then (s1\<lparr>args := (args s1)(i := Some t)\<rparr>, False)
               else (s1, False)
           | None \<Rightarrow>
               (let s2 = s1\<lparr>args := (args s1)(i := None)\<rparr> in
                if i = 0 then (djsh_error s2, True) else (s2, False))))"

text \<open>The loop: \<open>k\<close> iterations are left and \<open>i\<close> is the loop variable.\<close>

fun parse_loop :: "env \<Rightarrow> string \<Rightarrow> nat \<Rightarrow> nat \<Rightarrow> shell \<Rightarrow> shell" where
  "parse_loop e line 0 i s = s"
| "parse_loop e line (Suc k) i s =
     (case parse_slot e line i s of
        (s1, brk) \<Rightarrow> if brk then s1 else parse_loop e line k (Suc i) s1)"

definition parse_args :: "env \<Rightarrow> string \<Rightarrow> shell \<Rightarrow> shell" where
  "parse_args e line s = parse_loop e line (MAX_ARGS + 2) 0 s"

section \<open>The helpers\<close>

text \<open>\<^verbatim>\<open>getCommandFromPath\<close>: the part behind the last slash, if there is a slash.\<close>

definition lastSlash :: "string \<Rightarrow> int" where
  "lastSlash cmdPath =
     foldl (\<lambda>l i. if cmdPath ! i = CHR ''/'' then int i else l) (- 1) [0..<length cmdPath]"

definition getCommandFromPath :: "string \<Rightarrow> string" where
  "getCommandFromPath cmdPath =
     (if lastSlash cmdPath > - 1 then drop (nat (lastSlash cmdPath + 1)) cmdPath
      else cmdPath)"

text \<open>
  \<^verbatim>\<open>checkPath\<close>. The loop takes the current \<^verbatim>\<open>nextToken\<close> and the position saved
  in \<^verbatim>\<open>strtok\<close>. The function returns a pointer that is never null: the candidate, or
  the string literal \<^verbatim>\<open>"0"\<close>.
\<close>

definition candidate :: "string \<Rightarrow> string \<Rightarrow> string" where
  "candidate cmd nextToken =
     (if last nextToken \<noteq> CHR ''/'' then nextToken @ ''/'' else nextToken) @ cmd"

lemma strtok_unfold:
  "strtok delim s =
     (if dropWhile (\<lambda>c. c \<in> set delim) s = [] then (None, [])
      else (Some (takeWhile (\<lambda>c. c \<notin> set delim) (dropWhile (\<lambda>c. c \<in> set delim) s)),
            (case dropWhile (\<lambda>c. c \<notin> set delim) (dropWhile (\<lambda>c. c \<in> set delim) s) of
               [] \<Rightarrow> [] | _ # r \<Rightarrow> r)))"
  by (simp only: strtok_def Let_def)

lemma strtok_shorter:
  assumes a: "strtok delim s = (Some t, r)"
  shows "length r < length s"
proof -
  let ?s1 = "dropWhile (\<lambda>c. c \<in> set delim) s"
  let ?d = "dropWhile (\<lambda>c. c \<notin> set delim) ?s1"
  have ne: "?s1 \<noteq> []"
  proof
    assume "?s1 = []"
    then have "strtok delim s = (None, [])" by (simp only: strtok_unfold simp_thms if_True)
    with a show False by simp
  qed
  then have "strtok delim s = (Some (takeWhile (\<lambda>c. c \<notin> set delim) ?s1),
      (case ?d of [] \<Rightarrow> [] | _ # q \<Rightarrow> q))"
    by (simp only: strtok_unfold simp_thms if_False)
  with a have r: "r = (case ?d of [] \<Rightarrow> [] | _ # q \<Rightarrow> q)"
    by simp
  have l1: "length ?d \<le> length ?s1" by (rule length_dropWhile_le)
  have l2: "length ?s1 \<le> length s" by (rule length_dropWhile_le)
  from ne have pos: "0 < length ?s1" by simp
  show ?thesis
  proof (cases ?d)
    case Nil
    from r have "r = []" unfolding Nil by (simp only: list.case)
    then have "length r = 0" by simp
    with pos l2 show ?thesis by linarith
  next
    case (Cons x q)
    from r have "r = q" unfolding Cons by (simp only: list.case)
    then have "Suc (length r) = length (x # q)" by simp
    with l1 l2 show ?thesis unfolding Cons by linarith
  qed
qed

function checkPath_loop :: "env \<Rightarrow> string \<Rightarrow> string option \<Rightarrow> string \<Rightarrow> string" where
  "checkPath_loop e cmd None sv = ''0''"
| "checkPath_loop e cmd (Some t) sv =
     (if access_ok e (candidate cmd t) then candidate cmd t
      else (case strtok '':'' sv of (nt, r) \<Rightarrow> checkPath_loop e cmd nt r))"
  by pat_completeness auto
termination
proof (relation "measure (\<lambda>(e, cmd, nt, sv). case nt of None \<Rightarrow> 0 | Some _ \<Rightarrow> Suc (length sv))",
    goal_cases)
  case 1
  show ?case by simp
next
  case (2 e cmd t sv x y)
  from 2(2) have eq: "strtok '':'' sv = (x, y)" by simp
  show ?case
  proof (cases x)
    case None
    then show ?thesis by simp
  next
    case (Some u)
    with eq have "strtok '':'' sv = (Some u, y)" by simp
    then have "length y < length sv" by (rule strtok_shorter)
    with Some show ?thesis by simp
  qed
qed

text \<open>
  \<^verbatim>\<open>strtok(path, ":")\<close> scans \<^verbatim>\<open>path\<close> when it is not null; with a null pointer
  \<^verbatim>\<open>strtok\<close> goes on from the position it saved last, which is where the argument
  loop of \<^verbatim>\<open>main\<close> left the input line.
\<close>

definition checkPath :: "env \<Rightarrow> string \<Rightarrow> string option \<Rightarrow> string \<Rightarrow> string option" where
  "checkPath e cmd pth sv =
     (case strtok '':'' (case pth of Some p \<Rightarrow> p | None \<Rightarrow> sv) of
        (nextToken, r) \<Rightarrow> Some (checkPath_loop e cmd nextToken r))"

section \<open>Dispatch (lines 221--318)\<close>

text \<open>
  How a dispatch ends: it falls through to the code behind the \<^verbatim>\<open>if\<close> chain
  (\<open>Next\<close>), it runs \<^verbatim>\<open>continue\<close> (\<open>Skip\<close>), or the process ends (\<open>Halt\<close>).
\<close>

datatype flow = Next shell | Skip shell | Halt int shell

definition builtin_exit :: "shell \<Rightarrow> flow" where
  "builtin_exit s =
     (case strtok whiteSpace (saved s) of
        (Some t, r) \<Rightarrow> Next (djsh_error (s\<lparr>saved := r\<rparr>))
      | (None, r) \<Rightarrow> Halt 0 (s\<lparr>saved := r\<rparr>))"

definition builtin_cd :: "env \<Rightarrow> shell \<Rightarrow> flow" where
  "builtin_cd e s =
     (case args s 1 of
        None \<Rightarrow> Next (djsh_error s)
      | Some d \<Rightarrow>
          if args s 2 \<noteq> None then Next (djsh_error s)
          else if chdir_ok e d then Next (s\<lparr>trace := trace s @ [Chdir d]\<rparr>)
          else Next (djsh_error s))"

definition builtin_path :: "shell \<Rightarrow> flow" where
  "builtin_path s =
     (case args s 1 of
        None \<Rightarrow>
          Next (write_stdout [LF]
                  (case path s of Some p \<Rightarrow> write_stdout p s | None \<Rightarrow> s))
      | Some a \<Rightarrow> Next (s\<lparr>path := Some a\<rparr>))"

text \<open>
  The skipping loop of \<^verbatim>\<open>history\<close> runs \<open>min (numHistory - n) numHistory\<close> times
  (not at all when that is negative), each time stepping to \<^verbatim>\<open>temp->next\<close> unless
  \<^verbatim>\<open>temp\<close> is null; the printing loop writes each entry and a newline.
\<close>

definition skip_entries :: "int \<Rightarrow> int \<Rightarrow> cmd_ptr list \<Rightarrow> cmd_ptr list" where
  "skip_entries numH n temp =
     ((\<lambda>t. case t of [] \<Rightarrow> [] | _ # r \<Rightarrow> r) ^^ nat (min (numH - n) numH)) temp"

fun print_entries :: "cmd_ptr list \<Rightarrow> shell \<Rightarrow> shell" where
  "print_entries [] s = s"
| "print_entries (c # temp) s =
     print_entries temp (write_stdout [LF] (write_stdout (cmd_text c) s))"

definition builtin_history :: "shell \<Rightarrow> flow" where
  "builtin_history s =
     (case args s 1 of
        None \<Rightarrow> Next (print_entries (hist s) s)
      | Some a \<Rightarrow>
          (let numEntriesToPrint = atoi a in
           if numEntriesToPrint < 0 \<or> numEntriesToPrint > 50 then Skip (djsh_error s)
           else Next (print_entries (skip_entries (numHistory s) numEntriesToPrint (hist s)) s)))"

text \<open>A variable argument list, or an argument vector, ends at its first null pointer.\<close>

fun upto_null :: "string option list \<Rightarrow> string list" where
  "upto_null [] = []"
| "upto_null (None # r) = []"
| "upto_null (Some a # r) = a # upto_null r"

text \<open>
  The child after \<^verbatim>\<open>fork\<close>: what it does, and the path string it is left with. It
  works on its own copy of the parent's memory, so \<^verbatim>\<open>strtok\<close> cuts the child's copy of
  the path.
\<close>

definition child :: "env \<Rightarrow> string \<Rightarrow> shell \<Rightarrow> event list \<times> string option" where
  "child e a0 s =
     (let cmdPath = checkPath e a0 (path s) (saved s);
          pth = map_option (strtok_clobber '':'') (path s)
      in case cmdPath of
           None \<Rightarrow> ([Err, ChildResumesLoop], pth)
         | Some cp \<Rightarrow>
             (case execType s of
                ExecLP \<Rightarrow>
                  if exec_ok e cp
                  then ([Exec cp (getCommandFromPath a0 #
                                   upto_null [args s 1, args s 2, args s 3, args s 4])
                           (stdout_tgt s)], pth)
                  else ([Err, ChildExit 1], pth)
              | ExecVP \<Rightarrow>
                  if exec_ok e cp
                  then ([Exec cp (upto_null (map (args s) [0..<MAX_ARGS + 2])) (stdout_tgt s)],
                        pth)
                  else ([Err, ChildExit 1], pth)))"

definition launch :: "env \<Rightarrow> string \<Rightarrow> shell \<Rightarrow> flow" where
  "launch e a0 s =
     (if \<not> fork_ok e then Halt 1 (djsh_error s)
      else Next (s\<lparr>trace := trace s @ [Fork (fst (child e a0 s)), Wait]\<rparr>))"

definition flow_state :: "flow \<Rightarrow> shell" where
  "flow_state f = (case f of Next s \<Rightarrow> s | Skip s \<Rightarrow> s | Halt c s \<Rightarrow> s)"

definition dispatch :: "env \<Rightarrow> string \<Rightarrow> shell \<Rightarrow> flow" where
  "dispatch e a0 s =
     (if a0 = ''exit'' then builtin_exit s
      else if a0 = ''cd'' then builtin_cd e s
      else if a0 = ''path'' then builtin_path s
      else if a0 = ''history'' then builtin_history s
      else launch e a0 s)"

section \<open>The main loop\<close>

text \<open>Lines 319--326.\<close>

definition restore_stdout :: "env \<Rightarrow> shell \<Rightarrow> shell" where
  "restore_stdout e s =
     (if redirect s then
        (case temp_fd s of
           Some t \<Rightarrow> if restore_ok e then s\<lparr>stdout_tgt := t\<rparr> else djsh_error s
         | None \<Rightarrow> djsh_error s)
      else s)"

text \<open>
  How an iteration ends: the loop goes on, the process has ended with a status, or the
  program has left the behaviour that C defines (\<open>Undefined\<close>, with the state in which
  it did; the model does not follow the program further).
\<close>

datatype outcome = Continue shell | Exited int shell | Undefined shell

text \<open>
  One iteration of \<^verbatim>\<open>while(1)\<close>; the input is \<open>None\<close> when \<^verbatim>\<open>getline\<close> returns
  -1, and the characters read otherwise.
\<close>

definition step :: "env \<Rightarrow> string option \<Rightarrow> shell \<Rightarrow> outcome" where
  "step e input s =
     (let s0 = write_stdout prompt s in
      case input of
        None \<Rightarrow> Continue s0
      | Some raw \<Rightarrow>
          (let line = strip_newline raw;
               s1 = record_history line s0
           in if fault s1 \<noteq> None then Undefined s1
              else
                (let s2 = parse_args e line s1
                 in case args s2 0 of
                      None \<Rightarrow> Continue s2
                    | Some a0 \<Rightarrow>
                        (case dispatch e a0 s2 of
                           Next s3 \<Rightarrow> Continue (restore_stdout e s3)
                         | Skip s3 \<Rightarrow> Continue s3
                         | Halt c s3 \<Rightarrow> Exited c s3))))"

fun run :: "env \<Rightarrow> string option list \<Rightarrow> shell \<Rightarrow> outcome" where
  "run e [] s = Continue s"
| "run e (l # ls) s =
     (case step e l s of
        Continue s1 \<Rightarrow> run e ls s1
      | Exited c s1 \<Rightarrow> Exited c s1
      | Undefined s1 \<Rightarrow> Undefined s1)"

section \<open>Observations and specification-level notions\<close>

definition state_of :: "outcome \<Rightarrow> shell" where
  "state_of oc = (case oc of Continue s \<Rightarrow> s | Exited c s \<Rightarrow> s | Undefined s \<Rightarrow> s)"

definition is_Continue :: "outcome \<Rightarrow> bool" where
  "is_Continue oc =
     (case oc of Continue s \<Rightarrow> True | Exited c s \<Rightarrow> False | Undefined s \<Rightarrow> False)"

definition exit_status :: "outcome \<Rightarrow> int option" where
  "exit_status oc =
     (case oc of Continue s \<Rightarrow> None | Exited c s \<Rightarrow> Some c | Undefined s \<Rightarrow> None)"

text \<open>The step outside defined behaviour with which a run ended, if it ended so.\<close>

definition undefined_by :: "outcome \<Rightarrow> fault option" where
  "undefined_by oc =
     (case oc of Continue s \<Rightarrow> None | Exited c s \<Rightarrow> None | Undefined s \<Rightarrow> fault s)"

text \<open>The events of a state that were not yet there in an earlier state.\<close>

definition new_events :: "shell \<Rightarrow> shell \<Rightarrow> event list" where
  "new_events s s' = drop (length (trace s)) (trace s')"

text \<open>Everything written to standard output by the shell itself, wherever it went.\<close>

fun stdout_text :: "event list \<Rightarrow> string" where
  "stdout_text [] = []"
| "stdout_text (Out t str # evs) = str @ stdout_text evs"
| "stdout_text (ev # evs) = stdout_text evs"

text \<open>
  The destinations of standard output: of each write of the shell and of each program
  launched, in a child as well.
\<close>

fun out_targets :: "event \<Rightarrow> target list" where
  "out_targets (Out t str) = [t]"
| "out_targets (Exec f argv t) = [t]"
| "out_targets (Fork evs) = concat (map out_targets evs)"
| "out_targets ev = []"

definition destinations :: "event list \<Rightarrow> target list" where
  "destinations evs = concat (map out_targets evs)"

text \<open>From \<open>s\<close> to \<open>s'\<close> events were only added, and all output went to \<open>t\<close>.\<close>

definition writes_only :: "target \<Rightarrow> shell \<Rightarrow> shell \<Rightarrow> bool" where
  "writes_only t s s' =
     (length (trace s) \<le> length (trace s') \<and> take (length (trace s)) (trace s') = trace s \<and>
      list_all (\<lambda>d. d = t) (destinations (new_events s s')))"

definition reports_error :: "event list \<Rightarrow> bool" where
  "reports_error evs = (Err \<in> set evs)"



definition is_builtin :: "string \<Rightarrow> bool" where
  "is_builtin a0 = (a0 = ''exit'' \<or> a0 = ''cd'' \<or> a0 = ''path'' \<or> a0 = ''history'')"

text \<open>The history log of the specification: the last 50 of the lines read, as stored.\<close>

definition last_50 :: "'a list \<Rightarrow> 'a list" where
  "last_50 xs = drop (length xs - 50) xs"

fun logged :: "string option list \<Rightarrow> cmd_ptr list" where
  "logged [] = []"
| "logged (None # inputs) = logged inputs"
| "logged (Some raw # inputs) = tempCmd (strip_newline raw) # logged inputs"

definition hist_inv :: "shell \<Rightarrow> bool" where
  "hist_inv s = (numHistory s = int (length (hist s)) \<and> length (hist s) \<le> 50)"

text \<open>The tokens that repeated calls of \<^verbatim>\<open>strtok\<close> return for a string.\<close>

function strtok_all :: "string \<Rightarrow> string \<Rightarrow> string list" where
  "strtok_all delim s =
     (case strtok delim s of
        (None, r) \<Rightarrow> []
      | (Some t, r) \<Rightarrow> t # strtok_all delim r)"
  by pat_completeness auto
termination
proof (relation "measure (\<lambda>(delim, s). length s)", goal_cases)
  case 1
  show ?case by simp
next
  case (2 delim s x r t)
  from 2 have "strtok delim s = (Some t, r)" by simp
  then have "length r < length s" by (rule strtok_shorter)
  then show ?case by simp
qed

declare strtok_all.simps [simp del]








subsection \<open>Environments for the examples\<close>

text \<open>Only \<^verbatim>\<open>/bin/ls\<close> exists; every system call succeeds but \<^verbatim>\<open>chdir\<close>.\<close>

definition demo_env :: env where
  "demo_env =
     \<lparr> access_ok = (\<lambda>p. p = ''/bin/ls''), exec_ok = (\<lambda>p. p = ''/bin/ls''),
       open_ok = (\<lambda>f. True), swap_ok = True, restore_ok = True, fork_ok = True,
       chdir_ok = (\<lambda>d. False) \<rparr>"




text \<open>The state after \<^verbatim>\<open>path /usr/bin:/bin\<close> in a fresh shell, but for log and trace.\<close>

definition path_state :: shell where
  "path_state = (init_shell ExecLP)\<lparr>path := Some ''/usr/bin:/bin''\<rparr>"


section \<open>What each operation leaves alone\<close>

lemma djsh_error_fields [simp]:
  "execType (djsh_error s) = execType s" "path (djsh_error s) = path s"
  "hist (djsh_error s) = hist s" "numHistory (djsh_error s) = numHistory s"
  "args (djsh_error s) = args s" "redirect (djsh_error s) = redirect s"
  "output_fd (djsh_error s) = output_fd s" "temp_fd (djsh_error s) = temp_fd s"
  "stdout_tgt (djsh_error s) = stdout_tgt s" "saved (djsh_error s) = saved s"
  "trace (djsh_error s) = trace s @ [Err]" "fault (djsh_error s) = fault s"
  by (simp_all add: djsh_error_def)

lemma write_stdout_fields [simp]:
  "execType (write_stdout str s) = execType s" "path (write_stdout str s) = path s"
  "hist (write_stdout str s) = hist s" "numHistory (write_stdout str s) = numHistory s"
  "args (write_stdout str s) = args s" "redirect (write_stdout str s) = redirect s"
  "output_fd (write_stdout str s) = output_fd s" "temp_fd (write_stdout str s) = temp_fd s"
  "stdout_tgt (write_stdout str s) = stdout_tgt s" "saved (write_stdout str s) = saved s"
  "trace (write_stdout str s) = trace s @ [Out (stdout_tgt s) str]"
  "fault (write_stdout str s) = fault s"
  by (simp_all add: write_stdout_def)

lemma open_redirect_frame [simp]:
  "execType (open_redirect e fn s) = execType s" "path (open_redirect e fn s) = path s"
  "hist (open_redirect e fn s) = hist s" "numHistory (open_redirect e fn s) = numHistory s"
  "args (open_redirect e fn s) = args s" "saved (open_redirect e fn s) = saved s"
  "fault (open_redirect e fn s) = fault s"
  by (simp_all add: open_redirect_def Let_def split: option.splits)

lemma parse_slot_frame:
  assumes "parse_slot e line i s = (s', b)"
  shows "execType s' = execType s" "path s' = path s" "hist s' = hist s"
    "numHistory s' = numHistory s" "fault s' = fault s"
  using assms
  by (auto simp: parse_slot_def Let_def split: prod.splits option.splits if_splits)

lemma parse_loop_frame:
  "execType (parse_loop e line k i s) = execType s \<and> path (parse_loop e line k i s) = path s \<and>
   hist (parse_loop e line k i s) = hist s \<and> numHistory (parse_loop e line k i s) = numHistory s \<and>
   fault (parse_loop e line k i s) = fault s"
proof (induction k arbitrary: i s)
  case 0
  show ?case by simp
next
  case (Suc k)
  obtain s1 b where ps: "parse_slot e line i s = (s1, b)" by (cases "parse_slot e line i s")
  show ?case
  proof (cases b)
    case True
    with ps show ?thesis by (simp add: parse_slot_frame[OF ps])
  next
    case False
    with ps Suc.IH[of "Suc i" s1] show ?thesis by (simp add: parse_slot_frame[OF ps])
  qed
qed

lemma parse_args_frame [simp]:
  "execType (parse_args e line s) = execType s" "path (parse_args e line s) = path s"
  "hist (parse_args e line s) = hist s" "numHistory (parse_args e line s) = numHistory s"
  "fault (parse_args e line s) = fault s"
  unfolding parse_args_def using parse_loop_frame[of e line "MAX_ARGS + 2" 0 s] by blast+

lemma print_entries_fields [simp]:
  "execType (print_entries xs s) = execType s" "path (print_entries xs s) = path s"
  "hist (print_entries xs s) = hist s" "numHistory (print_entries xs s) = numHistory s"
  "args (print_entries xs s) = args s" "redirect (print_entries xs s) = redirect s"
  "output_fd (print_entries xs s) = output_fd s" "temp_fd (print_entries xs s) = temp_fd s"
  "stdout_tgt (print_entries xs s) = stdout_tgt s" "saved (print_entries xs s) = saved s"
  "fault (print_entries xs s) = fault s"
  by (induction xs arbitrary: s; simp)+

lemma print_entries_trace:
  "trace (print_entries xs s) =
     trace s @
     concat (map (\<lambda>c. [Out (stdout_tgt s) (cmd_text c), Out (stdout_tgt s) [LF]]) xs)"
  by (induction xs arbitrary: s) simp_all

lemma stdout_text_append [simp]: "stdout_text (xs @ ys) = stdout_text xs @ stdout_text ys"
  by (induction xs rule: stdout_text.induct) simp_all


lemma restore_stdout_frame [simp]:
  "execType (restore_stdout e s) = execType s" "path (restore_stdout e s) = path s"
  "hist (restore_stdout e s) = hist s" "numHistory (restore_stdout e s) = numHistory s"
  "args (restore_stdout e s) = args s" "saved (restore_stdout e s) = saved s"
  "redirect (restore_stdout e s) = redirect s" "fault (restore_stdout e s) = fault s"
  by (simp_all add: restore_stdout_def split: option.splits)

lemma restore_stdout_text [simp]:
  "stdout_text (trace (restore_stdout e s)) = stdout_text (trace s)"
  by (simp add: restore_stdout_def split: option.splits)

section \<open>The history log\<close>

lemma set_fault_fields [simp]:
  "execType (set_fault f s) = execType s" "path (set_fault f s) = path s"
  "hist (set_fault f s) = hist s" "numHistory (set_fault f s) = numHistory s"
  "args (set_fault f s) = args s" "redirect (set_fault f s) = redirect s"
  "output_fd (set_fault f s) = output_fd s" "temp_fd (set_fault f s) = temp_fd s"
  "stdout_tgt (set_fault f s) = stdout_tgt s" "saved (set_fault f s) = saved s"
  "trace (set_fault f s) = trace s"
  by (simp_all add: set_fault_def split: option.splits)

lemma free_cmd_fields [simp]:
  "execType (free_cmd h s) = execType s" "path (free_cmd h s) = path s"
  "hist (free_cmd h s) = hist s" "numHistory (free_cmd h s) = numHistory s"
  "args (free_cmd h s) = args s" "redirect (free_cmd h s) = redirect s"
  "output_fd (free_cmd h s) = output_fd s" "temp_fd (free_cmd h s) = temp_fd s"
  "stdout_tgt (free_cmd h s) = stdout_tgt s" "saved (free_cmd h s) = saved s"
  "trace (free_cmd h s) = trace s"
  by (cases h; simp)+

lemma record_history_unfold:
  "record_history line s =
     (let s0 = (if copy_overruns line then set_fault CopyOverrun s else s)
      in if numHistory s < 50
         then s0\<lparr>hist := hist s @ [tempCmd line], numHistory := numHistory s + 1\<rparr>
         else (case hist s of
                 [] \<Rightarrow> free_cmd (tempCmd line) (s0\<lparr>hist := []\<rparr>)
               | h # r \<Rightarrow> free_cmd h (s0\<lparr>hist := r @ [tempCmd line]\<rparr>)))"
  by (cases "hist s") (simp_all add: record_history_def Let_def)

lemma record_history_fields [simp]:
  "execType (record_history l s) = execType s" "path (record_history l s) = path s"
  "args (record_history l s) = args s" "redirect (record_history l s) = redirect s"
  "output_fd (record_history l s) = output_fd s" "temp_fd (record_history l s) = temp_fd s"
  "stdout_tgt (record_history l s) = stdout_tgt s" "saved (record_history l s) = saved s"
  "trace (record_history l s) = trace s"
  by (simp_all add: record_history_unfold Let_def split: list.splits)


lemma record_history_hist:
  assumes "hist_inv s"
  shows "hist (record_history l s) = last_50 (hist s @ [tempCmd l])"
    and "hist_inv (record_history l s)"
proof -
  from assms have n: "numHistory s = int (length (hist s))" and b: "length (hist s) \<le> 50"
    by (simp_all add: hist_inv_def)
  show "hist (record_history l s) = last_50 (hist s @ [tempCmd l])"
  proof (cases "length (hist s) < 50")
    case True
    with n show ?thesis by (simp add: record_history_unfold Let_def last_50_def)
  next
    case False
    with b have "length (hist s) = 50" by simp
    with n show ?thesis
      by (cases "hist s") (simp_all add: record_history_unfold Let_def last_50_def)
  qed
  show "hist_inv (record_history l s)"
  proof (cases "length (hist s) < 50")
    case True
    with n show ?thesis by (simp add: record_history_unfold Let_def hist_inv_def)
  next
    case False
    with b have "length (hist s) = 50" by simp
    with n show ?thesis
      by (cases "hist s") (simp_all add: record_history_unfold Let_def hist_inv_def)
  qed
qed

lemma record_history_cong:
  "hist s = hist t \<Longrightarrow> numHistory s = numHistory t \<Longrightarrow>
     hist (record_history l s) = hist (record_history l t) \<and>
     numHistory (record_history l s) = numHistory (record_history l t)"
  by (cases "hist t") (simp_all add: record_history_unfold Let_def)

lemma set_fault_fault: "fault s = fault t \<Longrightarrow> fault (set_fault f s) = fault (set_fault f t)"
  by (simp add: set_fault_def split: option.splits)

lemma free_cmd_fault: "fault s = fault t \<Longrightarrow> fault (free_cmd h s) = fault (free_cmd h t)"
  by (cases h) (auto intro: set_fault_fault)

lemma record_history_fault_cong:
  assumes "hist s = hist t" and "numHistory s = numHistory t" and "fault s = fault t"
  shows "fault (record_history l s) = fault (record_history l t)"
proof -
  have f0: "fault (set_fault CopyOverrun s) = fault (set_fault CopyOverrun t)"
    using assms(3) by (rule set_fault_fault)
  have fr: "\<And>h a b hs. fault a = fault b \<Longrightarrow>
      fault (free_cmd h (a\<lparr>hist := hs\<rparr>)) = fault (free_cmd h (b\<lparr>hist := hs\<rparr>))"
    by (rule free_cmd_fault) simp
  show ?thesis
  proof (cases "hist t")
    case Nil
    with assms f0 fr[OF f0] fr[OF assms(3)] show ?thesis
      by (simp add: record_history_unfold Let_def)
  next
    case (Cons h r)
    with assms f0 fr[OF f0] fr[OF assms(3)] show ?thesis
      by (simp add: record_history_unfold Let_def)
  qed
qed

lemma record_history_prompt:
  "hist (record_history l (write_stdout prompt s)) = hist (record_history l s)"
  "numHistory (record_history l (write_stdout prompt s)) = numHistory (record_history l s)"
  "fault (record_history l (write_stdout prompt s)) = fault (record_history l s)"
  using record_history_cong[of "write_stdout prompt s" s l]
    record_history_fault_cong[of "write_stdout prompt s" s l] by simp_all

lemma last_50_length: "length (last_50 xs) \<le> 50"
  by (simp add: last_50_def)

lemma last_50_short: "length xs \<le> 50 \<Longrightarrow> last_50 xs = xs"
  by (simp add: last_50_def)

lemma last_50_snoc: "last_50 (last_50 xs @ [x]) = last_50 (xs @ [x])"
proof (cases "length xs \<le> 50")
  case True
  then show ?thesis by (simp add: last_50_def)
next
  case False
  then have "Suc (length xs - 50) = length xs - 49" by simp
  with False show ?thesis by (simp add: last_50_def)
qed

lemma builtin_frames:
  "hist (flow_state (builtin_exit s)) = hist s \<and> numHistory (flow_state (builtin_exit s)) = numHistory s"
  "hist (flow_state (builtin_cd e s)) = hist s \<and> numHistory (flow_state (builtin_cd e s)) = numHistory s"
  "hist (flow_state (builtin_path s)) = hist s \<and> numHistory (flow_state (builtin_path s)) = numHistory s"
  "hist (flow_state (builtin_history s)) = hist s \<and> numHistory (flow_state (builtin_history s)) = numHistory s"
  "hist (flow_state (launch e a0 s)) = hist s \<and> numHistory (flow_state (launch e a0 s)) = numHistory s"
  by (simp_all add: builtin_exit_def builtin_cd_def builtin_path_def builtin_history_def launch_def
      flow_state_def Let_def split: prod.splits option.splits)

lemma dispatch_hist [simp]:
  "hist (flow_state (dispatch e a0 s)) = hist s"
  "numHistory (flow_state (dispatch e a0 s)) = numHistory s"
  by (simp_all add: dispatch_def builtin_frames)

lemma state_of_step_fault:
  "fault (record_history (strip_newline raw) s) \<noteq> None \<Longrightarrow>
     step e (Some raw) s = Undefined (record_history (strip_newline raw) (write_stdout prompt s))"
  by (simp add: step_def Let_def record_history_prompt)

lemma step_defined:
  "fault (record_history (strip_newline raw) s) = None \<Longrightarrow>
     step e (Some raw) s =
     (let s2 = parse_args e (strip_newline raw)
                 (record_history (strip_newline raw) (write_stdout prompt s))
      in case args s2 0 of
           None \<Rightarrow> Continue s2
         | Some a0 \<Rightarrow>
             (case dispatch e a0 s2 of
                Next s3 \<Rightarrow> Continue (restore_stdout e s3)
              | Skip s3 \<Rightarrow> Continue s3
              | Halt c s3 \<Rightarrow> Exited c s3))"
  by (simp add: step_def Let_def record_history_prompt)

lemma state_of_step:
  "fault (record_history (strip_newline raw) s) = None \<Longrightarrow>
   state_of (step e (Some raw) s) =
     (let s2 = parse_args e (strip_newline raw)
                 (record_history (strip_newline raw) (write_stdout prompt s))
      in case args s2 0 of
           None \<Rightarrow> s2
         | Some a0 \<Rightarrow>
             (case dispatch e a0 s2 of
                Next s3 \<Rightarrow> restore_stdout e s3 | Skip s3 \<Rightarrow> s3 | Halt c s3 \<Rightarrow> s3))"
  by (simp add: step_defined state_of_def Let_def split: option.splits flow.splits)

lemma flow_state_simps [simp]:
  "flow_state (Next s) = s" "flow_state (Skip s) = s" "flow_state (Halt c s) = s"
  by (simp_all add: flow_state_def)

lemma state_of_simps [simp]:
  "state_of (Continue s) = s" "state_of (Exited c s) = s" "state_of (Undefined s) = s"
  by (simp_all add: state_of_def)

lemma step_hist:
  "hist (state_of (step e (Some raw) s)) = hist (record_history (strip_newline raw) s)"
  "numHistory (state_of (step e (Some raw) s)) = numHistory (record_history (strip_newline raw) s)"
proof -
  let ?l = "strip_newline raw"
  let ?s2 = "parse_args e ?l (record_history ?l (write_stdout prompt s))"
  have d: "\<And>a0. hist (flow_state (dispatch e a0 ?s2)) = hist (record_history ?l s)"
    "\<And>a0. numHistory (flow_state (dispatch e a0 ?s2)) = numHistory (record_history ?l s)"
    by (simp_all add: record_history_prompt)
  have "hist (state_of (step e (Some raw) s)) = hist (record_history ?l s) \<and>
        numHistory (state_of (step e (Some raw) s)) = numHistory (record_history ?l s)"
  proof (cases "fault (record_history ?l s) = None")
    case False
    then show ?thesis by (simp add: state_of_step_fault record_history_prompt)
  next
    case ok: True
    show ?thesis
    proof (cases "args ?s2 0")
      case None
      then show ?thesis by (simp add: state_of_step[OF ok] record_history_prompt)
    next
      case (Some a0)
      then show ?thesis using d(1)[of a0] d(2)[of a0]
        by (cases "dispatch e a0 ?s2") (simp_all add: state_of_step[OF ok])
    qed
  qed
  then show "hist (state_of (step e (Some raw) s)) = hist (record_history ?l s)"
    and "numHistory (state_of (step e (Some raw) s)) = numHistory (record_history ?l s)"
    by simp_all
qed

lemma step_None [simp]: "step e None s = Continue (write_stdout prompt s)"
  by (simp add: step_def)

lemma step_hist_inv:
  assumes "hist_inv s"
  shows "hist_inv (state_of (step e input s))"
proof (cases input)
  case None
  with assms show ?thesis by (simp add: hist_inv_def)
next
  case (Some raw)
  with record_history_hist(2)[OF assms, of "strip_newline raw"] show ?thesis
    by (simp add: hist_inv_def step_hist)
qed

lemma run_history:
  assumes "hist_inv s" and "hist s = last_50 pre" and "run e inputs s = Continue s'"
  shows "hist_inv s' \<and> hist s' = last_50 (pre @ logged inputs)"
  using assms
proof (induction inputs arbitrary: s pre)
  case Nil
  then show ?case by simp
next
  case (Cons input inputs)
  from Cons.prems(3) obtain s1 where st: "step e input s = Continue s1"
    and rest: "run e inputs s1 = Continue s'"
    by (cases "step e input s") simp_all
  from st have s1: "s1 = state_of (step e input s)" by simp
  have inv1: "hist_inv s1" unfolding s1 by (rule step_hist_inv[OF Cons.prems(1)])
  show ?case
  proof (cases input)
    case None
    with st have "hist s1 = hist s" by auto
    with Cons.prems(2) have "hist s1 = last_50 pre" by simp
    from Cons.IH[OF inv1 this rest] None show ?thesis by simp
  next
    case (Some raw)
    have "hist s1 = last_50 (hist s @ [tempCmd (strip_newline raw)])"
      unfolding s1 Some by (simp add: step_hist record_history_hist(1)[OF Cons.prems(1)])
    with Cons.prems(2) have "hist s1 = last_50 ((pre @ [tempCmd (strip_newline raw)]))"
      by (simp add: last_50_snoc)
    from Cons.IH[OF inv1 this rest] Some show ?thesis by simp
  qed
qed

lemma init_hist_inv: "hist_inv (init_shell t)"
  by (simp add: hist_inv_def init_shell_def)

section \<open>Running the shell on given lines\<close>

lemmas parse_eval =
  parse_args_def MAX_ARGS_def eval_nat_numeral parse_slot_def strtok_def cstr_def
  whiteSpace_def Let_def

lemma is_Continue_state: "is_Continue oc \<Longrightarrow> oc = Continue (state_of oc)"
  by (cases oc) (simp_all add: is_Continue_def)

lemma new_events_append: "trace s' = trace s @ evs \<Longrightarrow> new_events s s' = evs"
  by (simp add: new_events_def)

lemma restore_stdout_trace:
  "\<exists>es. trace (restore_stdout e s) = trace s @ es \<and> stdout_text es = [] \<and>
        concat (map out_targets es) = []"
  by (simp add: restore_stdout_def split: option.splits)

lemma logged_snoc: "logged (inputs @ [Some raw]) = logged inputs @ [tempCmd (strip_newline raw)]"
  by (induction inputs rule: logged.induct) simp_all

text \<open>
  How a line is stored: a line of text that ends with a newline is copied without the
  newline (\<^verbatim>\<open>getline\<close> stops at the first newline, so there is none inside) into a
  block of as many bytes as the text has characters, which is one byte short.
\<close>

lemma strip_text_line:
  assumes "l \<noteq> []" and "NUL \<notin> set l" and "last l \<noteq> CR"
  shows "strip_newline (l @ [LF]) = l @ [NUL]" and "cstr (l @ [NUL]) = l"
proof -
  have n: "length (l @ [LF]) - 1 = length l" by simp
  have u: "(l @ [LF])[length l := NUL] = l @ [NUL]" by simp
  have "(l @ [NUL]) ! (length (l @ [LF]) - 2) = last l"
    using assms(1) by (simp add: last_conv_nth nth_append)
  with assms(3) have nocr: "(l @ [NUL]) ! (length (l @ [LF]) - 2) \<noteq> CR" by simp
  show "strip_newline (l @ [LF]) = l @ [NUL]"
    unfolding strip_newline_def Let_def n using nocr by (simp add: u)
  show "cstr (l @ [NUL]) = l"
    using assms(2) by (simp add: cstr_def takeWhile_append)
qed

lemma text_line_not_blank:
  assumes "l \<noteq> []" and "NUL \<notin> set l" and "LF \<notin> set l" and "last l \<noteq> CR"
  shows "\<not> blank_input (l @ [NUL])"
proof -
  have two: "2 \<le> length (l @ [NUL])" using assms(1) by (cases l) simp_all
  have "l \<noteq> [CR, LF]" using assms(3) by auto
  with strip_text_line(2)[OF assms(1,2,4)] two show ?thesis
    using assms(1) by (simp add: blank_input_def)
qed

lemma stored_line:
  assumes "l \<noteq> []" and "NUL \<notin> set l" and "LF \<notin> set l" and "last l \<noteq> CR"
  shows "tempCmd (strip_newline (l @ [LF])) = Heap l"
    and "copy_overruns (strip_newline (l @ [LF])) \<longleftrightarrow> malloc_usable_size (length l) < length l + 1"
proof -
  note s = strip_text_line[OF assms(1,2,4)]
  note nb = text_line_not_blank[OF assms]
  show "tempCmd (strip_newline (l @ [LF])) = Heap l"
    unfolding s(1) using nb s(2) by (simp add: tempCmd_def)
  have "malloc_request (l @ [NUL]) = length l"
    using s(2) by (simp add: malloc_request_def)
  then show "copy_overruns (strip_newline (l @ [LF])) \<longleftrightarrow>
      malloc_usable_size (length l) < length l + 1"
    unfolding s(1) using nb s(2) by (simp add: copy_overruns_def)
qed

text \<open>
  As long as the shell is running, the log holds the last 50 of the lines read, in the
  order read, each as stored.
\<close>

lemma history_log_while_running:
  assumes "run e inputs (init_shell t) = Continue s"
  shows "length (hist s) \<le> 50 \<and> hist s = last_50 (logged inputs)"
proof -
  have i0: "hist_inv (init_shell t)" by (rule init_hist_inv)
  have h0: "hist (init_shell t) = last_50 []" by (simp add: init_shell_def last_50_def)
  from run_history[OF i0 h0 assms] show ?thesis by (simp add: hist_inv_def last_50_length)
qed

text \<open>
  C6. The log is kept to 50 entries by evicting the oldest entry, whose string the code
  frees. A blank line is stored as a pointer to a string literal; when that entry is
  evicted, \<^verbatim>\<open>free\<close> is called on the literal, which C leaves undefined and for which
  the C library aborts the process. After a blank line and 49 more lines the shell is
  running; with the next line it has left defined behaviour, and prints no history at all.
\<close>

theorem placeholder_eviction_undefined:
  "is_Continue (run demo_env (Some [LF] # replicate 49 (Some (''path'' @ [LF]))) (init_shell ExecLP)) \<and>
   undefined_by (run demo_env (Some [LF] # replicate 50 (Some (''path'' @ [LF])))
                   (init_shell ExecLP)) = Some FreeOfLiteral"
  by code_simp

text \<open>
  A line of 24 characters is copied into a block of 24 bytes, so the terminating NUL is
  written behind the block.
\<close>

lemma overrun_at_24_characters:
  "malloc_usable_size 24 = 24 \<and>
   undefined_by (step demo_env (Some (''path /usr/local/bin:/bin'' @ [LF])) (init_shell ExecLP))
     = Some CopyOverrun \<and>
   is_Continue (step demo_env (Some (''path /usr/local/bin:/bi'' @ [LF])) (init_shell ExecLP))"
  by code_simp

section \<open>The history built-in with a count\<close>



lemma dispatch_history [simp]: "dispatch e ''history'' s = builtin_history s"
  by (simp add: dispatch_def)






text \<open>
  A number that does not fit 32 bits wraps around: \<^verbatim>\<open>history 4294967297\<close> is
  \<^verbatim>\<open>history 1\<close>.
\<close>

lemma history_count_wraps:
  "new_events (init_shell ExecLP)
     (state_of (step demo_env (Some (''history 4294967297'' @ [LF])) (init_shell ExecLP))) =
   [Out Terminal prompt, Out Terminal ''history 4294967297'', Out Terminal [LF]]"
  by code_simp

section \<open>Blank lines\<close>

text \<open>
  C8. A line that holds only a carriage return and a newline is a blank line, and the
  code means to store the placeholder for it: it compares the line with \<^verbatim>\<open>"\r\n"\<close>.
  But the comparison comes after both characters have been overwritten with NUL, so it
  never holds, and the line is stored as the empty string, where the line that holds only
  a newline is stored as a space. \<^verbatim>\<open>history\<close> prints an empty line for it.
\<close>

theorem crlf_line_stored_empty:
  "hist (state_of (step demo_env (Some [CR, LF]) (init_shell ExecLP))) = [Heap []] \<and>
   hist (state_of (step demo_env (Some [LF]) (init_shell ExecLP))) = [Literal '' ''] \<and>
   new_events
     (state_of (run demo_env [Some [CR, LF]] (init_shell ExecLP)))
     (state_of (run demo_env [Some [CR, LF], Some (''history'' @ [LF])] (init_shell ExecLP))) =
   [Out Terminal prompt, Out Terminal [], Out Terminal [LF],
    Out Terminal ''history'', Out Terminal [LF]]"
  by code_simp

text \<open>
  Both lines give no token: the argument loop reports the error, nothing is dispatched,
  and the loop goes on.
\<close>

lemma blank_line_not_dispatched:
  "strtok whiteSpace (cstr (strip_newline [LF])) = (None, []) \<and>
   strtok whiteSpace (cstr (strip_newline [CR, LF])) = (None, []) \<and>
   is_Continue (step demo_env (Some [LF]) (init_shell ExecLP)) \<and>
   trace (state_of (step demo_env (Some [LF]) (init_shell ExecLP))) = [Out Terminal prompt, Err] \<and>
   is_Continue (step demo_env (Some [CR, LF]) (init_shell ExecLP)) \<and>
   trace (state_of (step demo_env (Some [CR, LF]) (init_shell ExecLP))) =
     [Out Terminal prompt, Err]"
  by code_simp

section \<open>Path resolution\<close>


lemma strtok_all_None: "strtok delim s = (None, r) \<Longrightarrow> strtok_all delim s = []"
  by (subst strtok_all.simps) simp

lemma strtok_all_Some: "strtok delim s = (Some t, r) \<Longrightarrow> strtok_all delim s = t # strtok_all delim r"
  by (subst strtok_all.simps) simp

lemma checkPath_loop_find:
  "checkPath_loop e cmd nt sv =
     (case find (access_ok e)
             (map (candidate cmd)
                (case nt of None \<Rightarrow> [] | Some t \<Rightarrow> t # strtok_all '':'' sv)) of
        Some c \<Rightarrow> c
      | None \<Rightarrow> ''0'')"
proof (induction e cmd nt sv rule: checkPath_loop.induct)
  case (1 e cmd sv)
  show ?case by simp
next
  case (2 e cmd t sv)
  show ?case
  proof (cases "access_ok e (candidate cmd t)")
    case True
    then show ?thesis by simp
  next
    case False
    obtain nt r where st: "strtok '':'' sv = (nt, r)" by (cases "strtok '':'' sv")
    have all: "strtok_all '':'' sv = (case nt of None \<Rightarrow> [] | Some t' \<Rightarrow> t' # strtok_all '':'' r)"
      using st by (cases nt) (simp_all add: strtok_all_None strtok_all_Some)
    from "2.IH"[OF False st[symmetric]] False st all show ?thesis by simp
  qed
qed

lemma checkPath_find:
  "checkPath e cmd pth sv =
     Some (case find (access_ok e)
                  (map (candidate cmd)
                     (strtok_all '':'' (case pth of Some p \<Rightarrow> p | None \<Rightarrow> sv))) of
             Some c \<Rightarrow> c
           | None \<Rightarrow> ''0'')"
proof -
  let ?src = "case pth of Some p \<Rightarrow> p | None \<Rightarrow> sv"
  obtain nt r where st: "strtok '':'' ?src = (nt, r)" by (cases "strtok '':'' ?src")
  have all: "strtok_all '':'' ?src = (case nt of None \<Rightarrow> [] | Some t \<Rightarrow> t # strtok_all '':'' r)"
    using st by (cases nt) (simp_all add: strtok_all_None strtok_all_Some)
  show ?thesis
    unfolding checkPath_def st all by (simp add: checkPath_loop_find)
qed







section \<open>Launching a program\<close>

lemma dispatch_launch: "\<not> is_builtin a0 \<Longrightarrow> dispatch e a0 s = launch e a0 s"
  by (simp add: dispatch_def is_builtin_def)

lemma launch_fields:
  "path (flow_state (launch e a0 s)) = path s"
  "hist (flow_state (launch e a0 s)) = hist s"
  "numHistory (flow_state (launch e a0 s)) = numHistory s"
  "stdout_tgt (flow_state (launch e a0 s)) = stdout_tgt s"
  by (simp_all add: launch_def)








text \<open>
  C10. Launching a program changes neither the stored path nor the log of the shell:
  not in the dispatch itself, and so not over the whole iteration, where the log only
  gains the line just read. The tokenizing of the path happens in the child, whose copy
  of the path string is cut behind its first entry.
\<close>

theorem launch_leaves_parent_state:
  assumes "\<not> is_builtin a0"
    and "args (parse_args e (strip_newline raw)
                 (record_history (strip_newline raw) (write_stdout prompt s))) 0 = Some a0"
  shows "path (flow_state (dispatch e a0 t)) = path t \<and>
         hist (flow_state (dispatch e a0 t)) = hist t \<and>
         numHistory (flow_state (dispatch e a0 t)) = numHistory t \<and>
         snd (child e a0 t) = map_option (strtok_clobber '':'') (path t) \<and>
         path (state_of (step e (Some raw) s)) = path s \<and>
         hist (state_of (step e (Some raw) s)) = hist (record_history (strip_newline raw) s)"
proof -
  let ?s2 = "parse_args e (strip_newline raw)
                 (record_history (strip_newline raw) (write_stdout prompt s))"
  have d: "path (flow_state (dispatch e a0 t)) = path t \<and>
         hist (flow_state (dispatch e a0 t)) = hist t \<and>
         numHistory (flow_state (dispatch e a0 t)) = numHistory t"
    using assms(1) by (simp add: dispatch_launch launch_fields)
  have c: "snd (child e a0 t) = map_option (strtok_clobber '':'') (path t)"
    by (cases "execType t") (simp_all add: child_def Let_def split: option.splits)
  have p2: "path (flow_state (dispatch e a0 ?s2)) = path s"
    using assms(1) by (simp add: dispatch_launch launch_fields)
  have p: "path (state_of (step e (Some raw) s)) = path s"
  proof (cases "fault (record_history (strip_newline raw) s) = None")
    case False
    then show ?thesis by (simp add: state_of_step_fault)
  next
    case True
    from assms(2) p2 show ?thesis
      by (cases "dispatch e a0 ?s2") (simp_all add: state_of_step[OF True])
  qed
  from d c p step_hist(1)[of e raw s] show ?thesis by simp
qed

lemma parse_ls: "args (parse_args demo_env (strip_newline (''ls'' @ [LF]))
                 (record_history (strip_newline (''ls'' @ [LF])) (write_stdout prompt path_state))) 0
                 = Some ''ls''"
  by (simp add: strip_newline_def parse_eval)

theorem launch_leaves_parent_state_witness:
  "path path_state = Some ''/usr/bin:/bin'' \<and>
   path (flow_state (dispatch demo_env ''ls'' path_state)) = Some ''/usr/bin:/bin'' \<and>
   snd (child demo_env ''ls'' path_state) = Some ''/usr/bin'' \<and>
   path (state_of (step demo_env (Some (''ls'' @ [LF])) path_state)) = Some ''/usr/bin:/bin''"
proof -
  have a: "\<not> is_builtin ''ls''" by (simp add: is_builtin_def)
  have p: "path path_state = Some ''/usr/bin:/bin''" by (simp add: path_state_def)
  have k: "map_option (strtok_clobber '':'') (Some ''/usr/bin:/bin'') = Some ''/usr/bin''"
    by code_simp
  from launch_leaves_parent_state[OF a parse_ls, of path_state] show ?thesis
    unfolding p k by simp
qed

section \<open>Where the code departs from its own intent\<close>

text \<open>
  C1. \<^verbatim>\<open>MAX_ARGS\<close> is 4, the array has room for the command, four arguments and the
  terminator, and \<^verbatim>\<open>execlp\<close> is passed \<^verbatim>\<open>args[1]\<close> to \<^verbatim>\<open>args[4]\<close>; but the loop
  stores a token only while \<^verbatim>\<open>i < MAX_ARGS\<close>, so \<^verbatim>\<open>args[4]\<close> is never set. With
  five arguments on the line the program launched sees three.
\<close>

theorem five_arguments_three_passed:
  "new_events
     (state_of (run demo_env [Some (''path /bin'' @ [LF])] (init_shell ExecLP)))
     (state_of (run demo_env [Some (''path /bin'' @ [LF]), Some (''ls a b c d e'' @ [LF])]
                  (init_shell ExecLP))) =
   [Out Terminal prompt, Fork [Exec ''/bin/ls'' [''ls'', ''a'', ''b'', ''c''] Terminal], Wait]"
  by code_simp

text \<open>The same with \<^verbatim>\<open>execvp\<close>.\<close>

lemma execvp_passes_three_arguments:
  "new_events
     (state_of (run demo_env [Some (''path /bin'' @ [LF])] (init_shell ExecVP)))
     (state_of (run demo_env [Some (''path /bin'' @ [LF]), Some (''ls a b c d e'' @ [LF])]
                  (init_shell ExecVP))) =
   [Out Terminal prompt, Fork [Exec ''/bin/ls'' [''ls'', ''a'', ''b'', ''c''] Terminal], Wait]"
  by code_simp

text \<open>A redirection among the first four tokens leaves a hole that ends the argument list.\<close>

lemma redirection_hole_ends_arguments:
  "new_events
     (state_of (run demo_env [Some (''path /bin'' @ [LF])] (init_shell ExecLP)))
     (state_of (run demo_env [Some (''path /bin'' @ [LF]), Some (''ls a > f b c d'' @ [LF])]
                  (init_shell ExecLP))) =
   [Out Terminal prompt, Opened ''f'', Fork [Exec ''/bin/ls'' [''ls'', ''a''] (File ''f'')], Wait]"
  by code_simp

text \<open>
  C2. \<^verbatim>\<open>history 51 > out.txt\<close> engages the redirection, the built-in reports its
  error and runs \<^verbatim>\<open>continue\<close>, which skips the restoring code at the end of the loop.
  Standard output still points to the file, and the next prompt and the output of the next
  \<^verbatim>\<open>history\<close> go there.
\<close>

theorem redirection_leaks_after_history_error:
  "stdout_tgt (state_of (run demo_env [Some (''history 51 > out.txt'' @ [LF])] (init_shell ExecLP))) =
     File ''out.txt'' \<and>
   new_events
     (state_of (run demo_env [Some (''history 51 > out.txt'' @ [LF])] (init_shell ExecLP)))
     (state_of (run demo_env [Some (''history 51 > out.txt'' @ [LF]), Some (''history'' @ [LF])]
                  (init_shell ExecLP))) =
   [Out (File ''out.txt'') prompt,
    Out (File ''out.txt'') ''history 51 > out.txt'', Out (File ''out.txt'') [LF],
    Out (File ''out.txt'') ''history'', Out (File ''out.txt'') [LF]]"
  by code_simp

text \<open>A line that is only a redirection leaves standard output on the file as well.\<close>

lemma redirection_leaks_after_bare_redirect:
  "stdout_tgt (state_of (run demo_env [Some (''> out.txt'' @ [LF])] (init_shell ExecLP))) =
     File ''out.txt''"
  by code_simp

text \<open>
  With two redirections on a line the second \<^verbatim>\<open>dup\<close> saves the first file, so the
  restoring code puts standard output on that file for good.
\<close>

lemma redirection_leaks_after_two_redirects:
  "stdout_tgt (state_of (run demo_env [Some (''ls > f1 > f2'' @ [LF]), Some (''path'' @ [LF])]
      (init_shell ExecLP))) = File ''f1''"
  by code_simp

text \<open>
  C3. By the time \<^verbatim>\<open>exit\<close> asks \<^verbatim>\<open>strtok\<close> for one more token, the argument loop
  has consumed the tokens of the line, so \<^verbatim>\<open>exit foo\<close> finds none and ends the shell
  with status 0, without an error.
\<close>

theorem exit_with_argument_exits:
  "exit_status (step demo_env (Some (''exit foo'' @ [LF])) (init_shell ExecLP)) = Some 0 \<and>
   trace (state_of (step demo_env (Some (''exit foo'' @ [LF])) (init_shell ExecLP))) =
     [Out Terminal prompt]"
  by code_simp

text \<open>The other half of the claim holds: \<^verbatim>\<open>exit\<close> alone ends the shell with status 0.\<close>

lemma exit_alone_exits:
  assumes "fault (record_history (strip_newline (''exit'' @ [LF])) s) = None"
  shows "exit_status (step e (Some (''exit'' @ [LF])) s) = Some 0"
proof -
  have "args (parse_args e (strip_newline (''exit'' @ [LF]))
          (record_history (strip_newline (''exit'' @ [LF])) (write_stdout prompt s))) 0 =
        Some ''exit''"
    and "saved (parse_args e (strip_newline (''exit'' @ [LF]))
          (record_history (strip_newline (''exit'' @ [LF])) (write_stdout prompt s))) = []"
    by (simp_all add: strip_newline_def parse_eval)
  then show ?thesis
    unfolding step_defined[OF assms]
    by (simp add: dispatch_def builtin_exit_def exit_status_def strtok_def Let_def)
qed

text \<open>The error shows only when the line has more tokens than the loop takes.\<close>

lemma exit_with_six_arguments_stays:
  "exit_status (step demo_env (Some (''exit a b c d e f'' @ [LF])) (init_shell ExecLP)) = None \<and>
   trace (state_of (step demo_env (Some (''exit a b c d e f'' @ [LF])) (init_shell ExecLP))) =
     [Out Terminal prompt, Err]"
  by code_simp

section \<open>Lines made of tokens\<close>








section \<open>Redirection that fails\<close>

lemma writes_only_iff:
  "writes_only t s s' \<longleftrightarrow> (\<exists>evs. trace s' = trace s @ evs \<and> set (destinations evs) \<subseteq> {t})"
proof
  assume w: "writes_only t s s'"
  then have "trace s' = trace s @ new_events s s'"
    unfolding writes_only_def new_events_def by (metis append_take_drop_id)
  moreover from w have "set (destinations (new_events s s')) \<subseteq> {t}"
    by (auto simp: writes_only_def list_all_iff)
  ultimately show "\<exists>evs. trace s' = trace s @ evs \<and> set (destinations evs) \<subseteq> {t}" by blast
next
  assume "\<exists>evs. trace s' = trace s @ evs \<and> set (destinations evs) \<subseteq> {t}"
  then obtain evs where e: "trace s' = trace s @ evs" "set (destinations evs) \<subseteq> {t}" by blast
  from e(1) have "new_events s s' = evs" by (rule new_events_append)
  with e show "writes_only t s s'" by (auto simp: writes_only_def list_all_iff)
qed

lemma destinations_simps [simp]:
  "destinations [] = []" "destinations (xs @ ys) = destinations xs @ destinations ys"
  "destinations (ev # evs) = out_targets ev @ destinations evs"
  by (simp_all add: destinations_def)

lemma concat_out_targets [simp]: "concat (map out_targets evs) = destinations evs"
  by (simp add: destinations_def)

lemma wo_same: "trace s' = trace s \<Longrightarrow> writes_only t s s'"
  by (simp add: writes_only_iff)

lemma wo_trans: "writes_only t s s1 \<Longrightarrow> writes_only t s1 s2 \<Longrightarrow> writes_only t s s2"
  unfolding writes_only_iff by auto

lemma wo_trace_eq: "writes_only t s s1 \<Longrightarrow> trace s2 = trace s1 \<Longrightarrow> writes_only t s s2"
  unfolding writes_only_iff by auto

lemma wo_err: "writes_only t s (djsh_error s)"
  by (simp add: writes_only_iff)

lemma wo_write: "writes_only (stdout_tgt s) s (write_stdout str s)"
  by (simp add: writes_only_iff)

lemma wo_open: "writes_only t s (open_redirect e fn s)"
  by (simp add: writes_only_iff open_redirect_def Let_def split: option.splits)

lemma wo_parse_slot: "writes_only t s (fst (parse_slot e line i s))"
proof -
  obtain nt r where st: "strtok whiteSpace (if i = 0 then cstr line else saved s) = (nt, r)"
    by (cases "strtok whiteSpace (if i = 0 then cstr line else saved s)")
  show ?thesis
  proof (cases nt)
    case None
    with st show ?thesis by (simp add: parse_slot_def Let_def writes_only_iff)
  next
    case (Some tk)
    show ?thesis
    proof (cases "tk = ''>''")
      case False
      with st Some show ?thesis by (simp add: parse_slot_def Let_def writes_only_iff)
    next
      case True
      obtain fn r2 where st2: "strtok whiteSpace r = (fn, r2)" by (cases "strtok whiteSpace r")
      have A: "writes_only t s (open_redirect e fn (s\<lparr>saved := r2\<rparr>))"
        by (rule wo_trans[OF _ wo_open]) (simp add: wo_same)
      have B: "writes_only t s
          ((open_redirect e fn (s\<lparr>saved := r2\<rparr>))\<lparr>args := (args s)(i := None)\<rparr>)"
        by (rule wo_trace_eq[OF A]) simp
      from st Some True st2 A B show ?thesis
        by (simp add: parse_slot_def Let_def)
    qed
  qed
qed

lemma wo_parse_loop: "writes_only t s (parse_loop e line k i s)"
proof (induction k arbitrary: i s)
  case 0
  show ?case by (simp add: wo_same)
next
  case (Suc k)
  obtain s1 b where ps: "parse_slot e line i s = (s1, b)" by (cases "parse_slot e line i s")
  from wo_parse_slot[of t s e line i] ps have w1: "writes_only t s s1" by simp
  show ?case
  proof (cases b)
    case True
    with ps w1 show ?thesis by simp
  next
    case False
    with ps wo_trans[OF w1 Suc.IH[of s1 "Suc i"]] show ?thesis by simp
  qed
qed

lemma wo_parse_args: "writes_only t s (parse_args e line s)"
  unfolding parse_args_def by (rule wo_parse_loop)

lemma wo_print: "writes_only (stdout_tgt s) s (print_entries xs s)"
proof -
  have "set (destinations (concat (map (\<lambda>c. [Out (stdout_tgt s) (cmd_text c),
                                                   Out (stdout_tgt s) [LF]]) xs)))
      \<subseteq> {stdout_tgt s}"
    by (induction xs) simp_all
  then show ?thesis unfolding writes_only_iff using print_entries_trace[of xs s] by blast
qed

lemma child_destinations: "set (destinations (fst (child e a0 s))) \<subseteq> {stdout_tgt s}"
  by (cases "execType s") (auto simp: child_def Let_def split: option.splits)

lemma wo_dispatch: "writes_only (stdout_tgt s) s (flow_state (dispatch e a0 s))"
proof -
  have ex: "writes_only (stdout_tgt s) s (flow_state (builtin_exit s))"
    by (simp add: builtin_exit_def writes_only_iff split: prod.splits option.splits)
  have cd: "writes_only (stdout_tgt s) s (flow_state (builtin_cd e s))"
    by (simp add: builtin_cd_def writes_only_iff split: option.splits)
  have pa: "writes_only (stdout_tgt s) s (flow_state (builtin_path s))"
    by (simp add: builtin_path_def writes_only_iff split: option.splits)
  have hi: "writes_only (stdout_tgt s) s (flow_state (builtin_history s))"
    using wo_print[of s] wo_err[of "stdout_tgt s" s]
    by (simp add: builtin_history_def Let_def split: option.splits)
  have la: "writes_only (stdout_tgt s) s (flow_state (launch e a0 s))"
    using child_destinations[of e a0 s] by (simp add: launch_def writes_only_iff)
  from ex cd pa hi la show ?thesis by (simp add: dispatch_def)
qed

lemma wo_restore: "writes_only t s (restore_stdout e s)"
  by (simp add: writes_only_iff restore_stdout_def split: option.splits)

lemma dispatch_stdout [simp]: "stdout_tgt (flow_state (dispatch e a0 s)) = stdout_tgt s"
  by (simp add: dispatch_def builtin_exit_def builtin_cd_def builtin_path_def
      builtin_history_def launch_def Let_def split: prod.splits option.splits)

lemma wo_step:
  assumes "stdout_tgt (parse_args e (strip_newline raw)
             (record_history (strip_newline raw) (write_stdout prompt s))) = stdout_tgt s"
  shows "writes_only (stdout_tgt s) s (state_of (step e (Some raw) s))"
proof -
  let ?l = "strip_newline raw"
  let ?s1 = "record_history ?l (write_stdout prompt s)"
  let ?s2 = "parse_args e ?l ?s1"
  have w1: "writes_only (stdout_tgt s) s ?s1"
    by (rule wo_trace_eq[OF wo_write]) simp
  have w2: "writes_only (stdout_tgt s) s ?s2"
    by (rule wo_trans[OF w1 wo_parse_args])
  show ?thesis
  proof (cases "fault (record_history ?l s) = None")
    case False
    with w1 show ?thesis by (simp add: state_of_step_fault)
  next
    case ok: True
    show ?thesis
    proof (cases "args ?s2 0")
      case None
      with w2 show ?thesis by (simp add: state_of_step[OF ok])
    next
      case (Some a0)
      have w3: "writes_only (stdout_tgt s) s (flow_state (dispatch e a0 ?s2))"
        using wo_trans[OF w2] wo_dispatch[of ?s2 e a0] assms by simp
      show ?thesis
      proof (cases "dispatch e a0 ?s2")
        case (Next s3)
        with w3 have "writes_only (stdout_tgt s) s s3" by simp
        from wo_trans[OF this wo_restore] Some Next show ?thesis
          by (simp add: state_of_step[OF ok])
      next
        case (Skip s3)
        with w3 Some show ?thesis by (simp add: state_of_step[OF ok])
      next
        case (Halt c s3)
        with w3 Some show ?thesis by (simp add: state_of_step[OF ok])
      qed
    qed
  qed
qed













section \<open>Redirection that fails, on any line\<close>

text \<open>
  Whatever the line is: when no file can be opened, or the swap of the descriptors fails,
  the argument loop leaves standard output and the redirection flag as they were, the
  arguments it finds are those it finds when the redirection succeeds, and everything the
  iteration writes goes where standard output pointed when it began.
\<close>

lemma open_redirect_fails:
  assumes "(\<forall>f. \<not> open_ok e f) \<or> \<not> swap_ok e"
  shows "stdout_tgt (open_redirect e fn s) = stdout_tgt s"
    and "redirect (open_redirect e fn s) = redirect s"
    and "reports_error (new_events s (open_redirect e fn s))"
  using assms
  by (auto simp: open_redirect_def Let_def new_events_def reports_error_def split: option.splits)

lemma parse_slot_fails:
  assumes "(\<forall>f. \<not> open_ok e f) \<or> \<not> swap_ok e"
  shows "stdout_tgt (fst (parse_slot e line i s)) = stdout_tgt s \<and>
         redirect (fst (parse_slot e line i s)) = redirect s"
  using open_redirect_fails(1,2)[OF assms]
  by (simp add: parse_slot_def Let_def split: prod.splits option.splits)

lemma parse_loop_fails:
  assumes "(\<forall>f. \<not> open_ok e f) \<or> \<not> swap_ok e"
  shows "stdout_tgt (parse_loop e line k i s) = stdout_tgt s \<and>
         redirect (parse_loop e line k i s) = redirect s"
proof (induction k arbitrary: i s)
  case 0
  show ?case by simp
next
  case (Suc k)
  obtain s1 b where ps: "parse_slot e line i s = (s1, b)" by (cases "parse_slot e line i s")
  from parse_slot_fails[OF assms, of line i s] ps
  have f: "stdout_tgt s1 = stdout_tgt s \<and> redirect s1 = redirect s" by simp
  show ?case
  proof (cases b)
    case True
    with ps f show ?thesis by simp
  next
    case False
    with ps f Suc.IH[of "Suc i" s1] show ?thesis by simp
  qed
qed

lemma parse_slot_args_env:
  assumes "args s = args s'" and "saved s = saved s'"
  shows "args (fst (parse_slot e line i s)) = args (fst (parse_slot e' line i s')) \<and>
         saved (fst (parse_slot e line i s)) = saved (fst (parse_slot e' line i s')) \<and>
         snd (parse_slot e line i s) = snd (parse_slot e' line i s')"
  using assms
  by (simp add: parse_slot_def Let_def split: prod.splits option.splits)

lemma parse_loop_args_env:
  assumes "args s = args s'" and "saved s = saved s'"
  shows "args (parse_loop e line k i s) = args (parse_loop e' line k i s')"
  using assms
proof (induction k arbitrary: i s s')
  case 0
  then show ?case by simp
next
  case (Suc k)
  obtain s1 b where ps: "parse_slot e line i s = (s1, b)" by (cases "parse_slot e line i s")
  obtain s1' b' where ps': "parse_slot e' line i s' = (s1', b')" by (cases "parse_slot e' line i s'")
  from parse_slot_args_env[OF Suc.prems, of e line i e'] ps ps'
  have eq: "args s1 = args s1'" "saved s1 = saved s1'" "b = b'" by simp_all
  show ?case
  proof (cases b)
    case True
    with ps ps' eq show ?thesis by simp
  next
    case False
    with ps ps' eq Suc.IH[OF eq(1,2), of "Suc i"] show ?thesis by simp
  qed
qed

lemma failed_redirection_any_line:
  assumes "(\<forall>f. \<not> open_ok e f) \<or> \<not> swap_ok e"
  shows "stdout_tgt (parse_args e line s) = stdout_tgt s \<and>
         redirect (parse_args e line s) = redirect s \<and>
         args (parse_args e line s) = args (parse_args e' line s) \<and>
         writes_only (stdout_tgt s) s (state_of (step e (Some raw) s))"
proof -
  have a: "args (parse_args e line s) = args (parse_args e' line s)"
    unfolding parse_args_def by (rule parse_loop_args_env) simp_all
  have p: "\<And>l t. stdout_tgt (parse_args e l t) = stdout_tgt t \<and> redirect (parse_args e l t) = redirect t"
    unfolding parse_args_def by (rule parse_loop_fails[OF assms])
  have "stdout_tgt (parse_args e (strip_newline raw)
             (record_history (strip_newline raw) (write_stdout prompt s))) = stdout_tgt s"
    using p by simp
  then have w: "writes_only (stdout_tgt s) s (state_of (step e (Some raw) s))" by (rule wo_step)
  from p[of line s] a w show ?thesis by blast
qed

section \<open>The fifth slot is never filled\<close>

lemma parse_slot_high_slots:
  assumes "args s 4 = None" and "args s 5 = None"
  shows "args (fst (parse_slot e line i s)) 4 = None \<and> args (fst (parse_slot e line i s)) 5 = None"
  using assms
  by (auto simp: parse_slot_def Let_def MAX_ARGS_def split: prod.splits option.splits)

lemma parse_loop_high_slots:
  assumes "args s 4 = None" and "args s 5 = None"
  shows "args (parse_loop e line k i s) 4 = None \<and> args (parse_loop e line k i s) 5 = None"
  using assms
proof (induction k arbitrary: i s)
  case 0
  then show ?case by simp
next
  case (Suc k)
  obtain s1 b where ps: "parse_slot e line i s = (s1, b)" by (cases "parse_slot e line i s")
  from parse_slot_high_slots[OF Suc.prems, of e line i] ps
  have h: "args s1 4 = None" "args s1 5 = None" by simp_all
  show ?case
  proof (cases b)
    case True
    with ps h show ?thesis by simp
  next
    case False
    with ps Suc.IH[OF h, of "Suc i"] show ?thesis by simp
  qed
qed

lemma dispatch_args [simp]: "args (flow_state (dispatch e a0 s)) = args s"
  by (simp add: dispatch_def builtin_exit_def builtin_cd_def builtin_path_def
      builtin_history_def launch_def Let_def split: prod.splits option.splits)

lemma step_high_slots:
  assumes "args s 4 = None" and "args s 5 = None"
  shows "args (state_of (step e input s)) 4 = None \<and> args (state_of (step e input s)) 5 = None"
proof (cases input)
  case None
  with assms show ?thesis by (simp add: step_def)
next
  case (Some raw)
  let ?s2 = "parse_args e (strip_newline raw)
               (record_history (strip_newline raw) (write_stdout prompt s))"
  show ?thesis
  proof (cases "fault (record_history (strip_newline raw) s) = None")
    case False
    with assms Some show ?thesis by (simp add: state_of_step_fault)
  next
    case ok: True
    have h: "args ?s2 4 = None \<and> args ?s2 5 = None"
      unfolding parse_args_def by (rule parse_loop_high_slots) (simp_all add: assms)
    show ?thesis
    proof (cases "args ?s2 0")
      case None
      with h Some show ?thesis by (simp add: state_of_step[OF ok])
    next
      case a0: (Some a0)
      have "args (flow_state (dispatch e a0 ?s2)) = args ?s2" by simp
      with h a0 Some show ?thesis
        by (cases "dispatch e a0 ?s2") (simp_all add: state_of_step[OF ok])
    qed
  qed
qed

lemma run_high_slots:
  assumes "args s 4 = None" and "args s 5 = None"
  shows "args (state_of (run e inputs s)) 4 = None \<and> args (state_of (run e inputs s)) 5 = None"
  using assms
proof (induction inputs arbitrary: s)
  case Nil
  then show ?case by simp
next
  case (Cons input inputs)
  from step_high_slots[OF Cons.prems, of e input]
  have h: "args (state_of (step e input s)) 4 = None" "args (state_of (step e input s)) 5 = None"
    by simp_all
  show ?case
  proof (cases "step e input s")
    case (Continue s1)
    with h Cons.IH[of s1] show ?thesis by simp
  next
    case (Exited c s1)
    with h show ?thesis by simp
  next
    case (Undefined s1)
    with h show ?thesis by simp
  qed
qed

lemma upto_null_length: "length (upto_null xs) \<le> length xs"
  by (induction xs rule: upto_null.induct) simp_all

lemma upto_null_append_None: "length (upto_null (xs @ None # ys)) \<le> length xs"
  by (induction xs rule: upto_null.induct) simp_all

text \<open>
  In every state the shell reaches, \<^verbatim>\<open>args[4]\<close> is null, so a launched program is
  given its name and at most three arguments, whatever the line was.
\<close>

lemma launched_program_sees_at_most_three_arguments:
  assumes "args s 4 = None" and "Exec cp argv tg \<in> set (fst (child e a0 s))"
  shows "length argv \<le> 4"
proof -
  have l: "length (upto_null [args s 1, args s 2, args s 3, args s 4]) \<le> 3"
    using upto_null_append_None[of "[args s 1, args s 2, args s 3]" "[]"] assms(1) by simp
  have "map (args s) [0..<MAX_ARGS + 2] =
      [args s 0, args s 1, args s 2, args s 3] @ None # [args s 5]"
    using assms(1) by (simp add: MAX_ARGS_def eval_nat_numeral upt_rec)
  then have v: "length (upto_null (map (args s) [0..<MAX_ARGS + 2])) \<le> 4"
    using upto_null_append_None[of "[args s 0, args s 1, args s 2, args s 3]" "[args s 5]"]
    by simp
  from assms(2) l v show ?thesis
    by (cases "execType s") (auto simp: child_def Let_def checkPath_find split: if_splits)
qed

lemma reachable_high_slots:
  "args (state_of (run e inputs (init_shell t))) 4 = None"
  using run_high_slots[of "init_shell t" e inputs] by (simp add: init_shell_def)

section \<open>Resolution while no path is stored\<close>

text \<open>
  Before the first \<^verbatim>\<open>path\<close> command the pointer \<^verbatim>\<open>path\<close> is null, and
  \<^verbatim>\<open>strtok(path, ":")\<close> in \<^verbatim>\<open>checkPath\<close> goes on in the input line. The argument
  loop takes six tokens, so a seventh is read as the search path.
\<close>

lemma unset_path_reads_rest_of_line:
  "new_events (init_shell ExecLP)
     (state_of (step demo_env (Some (''ls a b c d e /bin'' @ [LF])) (init_shell ExecLP))) =
   [Out Terminal prompt, Fork [Exec ''/bin/ls'' [''ls'', ''a'', ''b'', ''c''] Terminal], Wait]"
  by code_simp

lemma unset_path_short_line:
  "new_events (init_shell ExecLP)
     (state_of (step demo_env (Some (''ls'' @ [LF])) (init_shell ExecLP))) =
   [Out Terminal prompt, Fork [Err, ChildExit 1], Wait]"
  by code_simp

end
